theory Spec2Isabelle
  imports Main "HOL-Library.AList"
begin

section \<open>Combinator terms (combinator\_calculus.py)\<close>

text \<open>
  The three dataclasses \<open>Var\<close>, \<open>PrimComb\<close> and \<open>App\<close>. Dataclass equality is
  class-and-field-wise, which is the structural equality of the datatype.
  \<open>PrimComb\<close> carries an arbitrary string, as the dataclass does; \<open>PrimComb.S\<close> and
  \<open>PrimComb.K\<close> are the two class-level instances.
\<close>

datatype Term = Var string | PrimComb string | App Term Term

definition S :: Term where
  "S = PrimComb ''S''"

definition K :: Term where
  "K = PrimComb ''K''"

subsection \<open>Printer: the \<open>__str__\<close> methods\<close>

fun str :: "Term \<Rightarrow> string" where
  "str (Var name) = (if length name = 1 then name else ''<'' @ name @ ''>'')"
| "str (PrimComb name) = name"
| "str (App left right) =
     (let right_str = str right;
          right_str = (case right of App _ _ \<Rightarrow> ''('' @ right_str @ '')'' | _ \<Rightarrow> right_str)
      in str left @ right_str)"

subsection \<open>Parser: \<open>parse_term\<close> and \<open>parse\<close>\<close>

text \<open>
  Every \<open>ValueError\<close> of the parser, with the index its message carries. The message for
  the empty term carries no index.
\<close>

datatype parse_error =
    InvalidCharacter nat
  | NotClosed int
  | EmptyTerm
  | ExtraneousClosing int

fun acc_append :: "Term option \<Rightarrow> Term \<Rightarrow> Term" where
  "acc_append None t = t"
| "acc_append (Some acc) t = App acc t"

text \<open>The code after the \<open>while\<close> statement: the check of \<open>acc\<close> and the return.\<close>

fun parse_finish :: "Term option \<Rightarrow> nat \<Rightarrow> parse_error + (Term \<times> nat)" where
  "parse_finish None i = Inl EmptyTerm"
| "parse_finish (Some acc) i = Inr (acc, i)"

text \<open>
  The \<open>while\<close> loop of \<open>parse_term\<close>, with the loop variables \<open>i\<close> and \<open>acc\<close> as
  arguments. The \<open>else\<close> branch of the \<open>while\<close> runs when the loop ends without
  \<open>break\<close>, that is when \<open>i\<close> reaches the end of the string.
\<close>

function parse_loop ::
  "string \<Rightarrow> nat \<Rightarrow> nat \<Rightarrow> Term option \<Rightarrow> parse_error + (Term \<times> nat)" where
  "parse_loop src i0 i acc =
     (if i < length src then
        (let char = src ! i in
         if char = CHR ''S'' \<or> char = CHR ''K'' then
           parse_loop src i0 (i + 1) (Some (acc_append acc (PrimComb [char])))
         else if char = CHR ''('' then
           (case parse_loop src (i + 1) (i + 1) None of
              Inl e \<Rightarrow> Inl e
            | Inr (term, i') \<Rightarrow> parse_loop src i0 i' (Some (acc_append acc term)))
         else if char = CHR '')'' then
           parse_finish acc (i + 1)
         else Inl (InvalidCharacter i))
      else if i0 \<noteq> 0 then Inl (NotClosed (int i0 - 1))
      else parse_finish acc i)"
  by pat_completeness auto

lemma parse_loop_advances:
  "parse_loop_dom (src, i0, i, acc) \<Longrightarrow> parse_loop src i0 i acc = Inr (t, j) \<Longrightarrow> i \<le> j"
proof (induction src i0 i acc arbitrary: t j rule: parse_loop.pinduct)
  case (1 src i0 i acc)
  show ?case
  proof (cases "i < length src")
    case False
    with 1 show ?thesis
      by (cases acc) (auto simp: parse_loop.psimps split: if_splits)
  next
    case True
    note lt = True
    let ?c = "src ! i"
    consider (atom) "?c = CHR ''S'' \<or> ?c = CHR ''K''"
      | (opn) "\<not> (?c = CHR ''S'' \<or> ?c = CHR ''K'')" "?c = CHR ''(''"
      | (cls) "\<not> (?c = CHR ''S'' \<or> ?c = CHR ''K'')" "?c \<noteq> CHR ''(''" "?c = CHR '')''"
      | (bad) "\<not> (?c = CHR ''S'' \<or> ?c = CHR ''K'')" "?c \<noteq> CHR ''(''" "?c \<noteq> CHR '')''"
      by blast
    then show ?thesis
    proof cases
      case atom
      with 1 lt have "parse_loop src i0 (i + 1) (Some (acc_append acc (PrimComb [?c]))) = Inr (t, j)"
        by (simp add: parse_loop.psimps)
      with 1(2)[OF lt refl atom] show ?thesis by simp
    next
      case opn
      with 1(1,5) lt obtain u k where
        inner: "parse_loop src (i + 1) (i + 1) None = Inr (u, k)" and
        outer: "parse_loop src i0 k (Some (acc_append acc u)) = Inr (t, j)"
        by (auto simp: parse_loop.psimps split: sum.splits)
      from 1(3)[OF lt refl opn inner] have "i + 1 \<le> k" .
      moreover from 1(4)[OF lt refl opn inner refl outer] have "k \<le> j" .
      ultimately show ?thesis by simp
    next
      case cls
      with 1 lt show ?thesis
        by (cases acc) (auto simp: parse_loop.psimps)
    next
      case bad
      with 1 lt show ?thesis
        by (simp add: parse_loop.psimps)
    qed
  qed
qed

termination parse_loop
proof (relation "measure (\<lambda>(src, i0, i, acc). length src - i)", goal_cases)
  case 1
  show ?case by simp
next
  case (2 src i0 i acc x)
  then show ?case by simp
next
  case (3 src i0 i acc x)
  then show ?case by simp
next
  case (4 src i0 i acc x x2 xa y)
  then have "i + 1 \<le> y"
    using parse_loop_advances by blast
  with 4 show ?case by simp
qed

definition parse_term :: "string \<Rightarrow> nat \<Rightarrow> parse_error + (Term \<times> nat)" where
  "parse_term src i0 = parse_loop src i0 i0 None"

definition parse :: "string \<Rightarrow> parse_error + Term" where
  "parse src =
     (case parse_term src 0 of
        Inl e \<Rightarrow> Inl e
      | Inr (term, i) \<Rightarrow>
          if i \<noteq> length src then Inl (ExtraneousClosing (int i - 1)) else Inr term)"

subsection \<open>Reduction: \<open>reduce1\<close> and \<open>reduce\<close>\<close>

text \<open>
  The two root tests of \<open>reduce1\<close>, in the order of the source: the S test sits inside
  the \<open>isinstance(term.left, App)\<close> branch under \<open>isinstance(term.left.left, App)\<close>, the K
  test follows it inside the \<open>isinstance(term.left, App)\<close> branch.
\<close>

definition s_rule :: "Term \<Rightarrow> Term \<Rightarrow> Term option" where
  "s_rule left right =
     (case left of
        App left_left left_right \<Rightarrow>
          (case left_left of
             App left_left_left left_left_right \<Rightarrow>
               if left_left_left = S
               then Some (App (App left_left_right right) (App left_right right))
               else None
           | _ \<Rightarrow> None)
      | _ \<Rightarrow> None)"

definition k_rule :: "Term \<Rightarrow> Term \<Rightarrow> Term option" where
  "k_rule left right =
     (case left of
        App left_left left_right \<Rightarrow> if left_left = K then Some left_right else None
      | _ \<Rightarrow> None)"

text \<open>
  \<open>reduce1\<close> has the return type \<open>Optional[Term]\<close>: \<open>None\<close> is Python's \<open>None\<close>. The
  first statement returns \<open>term\<close> itself for a \<open>Var\<close> or a \<open>PrimComb\<close>. The final
  \<open>raise\<close> is unreachable for a value of type \<open>Term\<close>.
\<close>

fun reduce1 :: "Term \<Rightarrow> Term option" where
  "reduce1 (Var name) = Some (Var name)"
| "reduce1 (PrimComb name) = Some (PrimComb name)"
| "reduce1 (App left right) =
     (case s_rule left right of
        Some t \<Rightarrow> Some t
      | None \<Rightarrow>
          (case k_rule left right of
             Some t \<Rightarrow> Some t
           | None \<Rightarrow>
               (case reduce1 left of
                  None \<Rightarrow>
                    (case reduce1 right of
                       None \<Rightarrow> None
                     | Some right_reduced \<Rightarrow> Some (App left right_reduced))
                | Some left_reduced \<Rightarrow> Some (App left_reduced right))))"

text \<open>
  \<open>reduce\<close> is a \<open>while True\<close> loop that is left only by the \<open>return\<close> under
  \<open>reduced is None\<close>. The result \<open>None\<close> of the model means that the loop never returns.
\<close>

partial_function (option) reduce :: "Term \<Rightarrow> Term option" where
  "reduce term =
     (case reduce1 term of
        None \<Rightarrow> Some term
      | Some reduced \<Rightarrow> reduce reduced)"

section \<open>Unification (unify.py)\<close>

subsection \<open>Errors\<close>

text \<open>
  The exceptions of Python itself that the code runs into: \<open>IndexError\<close> from \<open>term[0]\<close>
  on the empty tuple or the empty string, \<open>ValueError\<close> from the \<open>raise\<close> statements of
  the combinator adapter, \<open>TypeError\<close> from a dict that is given a key without a hash
  (\<open>unhashable type\<close>). \<open>UnificationError\<close> is raised by \<open>unify\<close> alone, with the two
  messages \<open>{left} occurs in {right}\<close> and \<open>cannot unify applications of {f} and {g}\<close>.
\<close>

datatype py_error = IndexError | ValueError | TypeError

datatype ('f, 't) error =
    OccursCheck 't 't
  | SymbolMismatch 'f 'f
  | PyError py_error

subsection \<open>The interface \<open>Unifier\<close>\<close>

text \<open>
  A dict is an association list in insertion order; \<open>map_of\<close> is the lookup and
  \<open>AList.update\<close> the assignment to a key (an existing key keeps its place, a new key
  goes to the end).
\<close>

type_synonym 't dict = "('t \<times> 't) list"

text \<open>
  A class implementing \<open>Unifier\<close>: the four abstract class methods, and the two
  methods \<open>occurs_in\<close> and \<open>subst\<close> that the class inherits. The inherited methods
  recurse through \<open>cls.args\<close>, so each class below supplies them by recursion over its
  own terms, and \<open>occurs_in_source\<close> and \<open>subst_source\<close> state the bodies of the source
  that they satisfy. In both classes \<open>args\<close> raises for no term that is not a variable,
  so \<open>occurs_in\<close> raises nothing and its result is a truth value.

  \<open>hashable\<close> tells whether \<open>hash(term)\<close> succeeds for a term of the class. A dict hashes
  a key before anything else: \<open>{left: right}\<close> and \<open>s.get(term, term)\<close> raise
  \<open>TypeError\<close> for a term that has no hash, even when the dict is empty.
\<close>

record ('f, 't) unifier =
  apply_fn :: "'f \<Rightarrow> 't list \<Rightarrow> py_error + 't"
  is_var :: "'t \<Rightarrow> bool"
  fun_sym :: "'t \<Rightarrow> py_error + 'f"
  args :: "'t \<Rightarrow> py_error + 't list"
  hashable :: "'t \<Rightarrow> bool"
  occurs_in :: "'t \<Rightarrow> 't \<Rightarrow> bool"
  subst_fn :: "'t dict \<Rightarrow> 't \<Rightarrow> py_error + 't"

text \<open>\<open>s.get(term, term)\<close> for a key that has a hash.\<close>

definition dict_get :: "'t dict \<Rightarrow> 't \<Rightarrow> 't \<Rightarrow> 't" where
  "dict_get s key dflt = (case map_of s key of None \<Rightarrow> dflt | Some v \<Rightarrow> v)"

text \<open>
  \<open>tuple(... for arg in ...)\<close> over calls that may raise: the results in order, or the
  first exception.
\<close>

fun sequence :: "('e + 'a) list \<Rightarrow> 'e + 'a list" where
  "sequence [] = Inr []"
| "sequence (x # xs) =
     (case x of
        Inl e \<Rightarrow> Inl e
      | Inr y \<Rightarrow> (case sequence xs of Inl e \<Rightarrow> Inl e | Inr ys \<Rightarrow> Inr (y # ys)))"

text \<open>The body of \<open>occurs_in\<close> in the source, as a property of a class.\<close>

definition occurs_in_source :: "('f, 't) unifier \<Rightarrow> bool" where
  "occurs_in_source cls =
     (\<forall>var term. occurs_in cls var term =
        (if is_var cls term then var = term
         else (case args cls term of
                 Inl e \<Rightarrow> False
               | Inr as \<Rightarrow> (\<exists>arg \<in> set as. occurs_in cls var arg))))"

text \<open>The body of \<open>subst\<close> in the source, as a property of a class.\<close>

definition subst_source :: "('f, 't) unifier \<Rightarrow> bool" where
  "subst_source cls =
     (\<forall>s term. subst_fn cls s term =
        (if is_var cls term then
           (if hashable cls term then Inr (dict_get s term term) else Inl TypeError)
         else (case fun_sym cls term of
                 Inl e \<Rightarrow> Inl e
               | Inr f \<Rightarrow>
                   (case args cls term of
                      Inl e \<Rightarrow> Inl e
                    | Inr as \<Rightarrow>
                        (case sequence (map (subst_fn cls s) as) of
                           Inl e \<Rightarrow> Inl e
                         | Inr as' \<Rightarrow> apply_fn cls f as')))))"

subsection \<open>\<open>GeneralUnifier\<close>\<close>

text \<open>
  The values \<open>GeneralUnifier\<close> works on here: strings, which are its variables (the
  class takes every value that is not a tuple for one), and tuples. An argument sequence
  is a tuple in every call the repository makes (\<open>subst\<close> builds one with \<open>tuple(...)\<close>,
  \<open>args\<close> returns one); a list of terms stands for it.
\<close>

datatype pyval = Str string | Tuple "pyval list"

definition general_apply :: "pyval \<Rightarrow> pyval list \<Rightarrow> py_error + pyval" where
  "general_apply f as = Inr (Tuple (f # as))"

fun general_is_var :: "pyval \<Rightarrow> bool" where
  "general_is_var (Tuple xs) = False"
| "general_is_var (Str s) = True"

text \<open>
  \<open>term[0]\<close> and \<open>term[1:]\<close>. On a string the subscripts give its first character and
  the string of the others, whose items as a sequence are its one-character strings.
  Every call in \<open>occurs_in\<close>, \<open>subst\<close> and \<open>unify\<close> comes after a test of \<open>is_var\<close>, so
  the equations for a string are never reached from there.
\<close>

fun general_fun_sym :: "pyval \<Rightarrow> py_error + pyval" where
  "general_fun_sym (Tuple []) = Inl IndexError"
| "general_fun_sym (Tuple (f # as)) = Inr f"
| "general_fun_sym (Str []) = Inl IndexError"
| "general_fun_sym (Str (c # cs)) = Inr (Str [c])"

fun general_args :: "pyval \<Rightarrow> py_error + pyval list" where
  "general_args (Tuple xs) = Inr (drop 1 xs)"
| "general_args (Str s) = Inr (map (\<lambda>c. Str [c]) (drop 1 s))"

text \<open>A string has a hash, and so has a tuple of values that have one.\<close>

fun general_hashable :: "pyval \<Rightarrow> bool" where
  "general_hashable (Str s) = True"
| "general_hashable (Tuple xs) = (\<forall>x \<in> set xs. general_hashable x)"

fun general_occurs_in :: "pyval \<Rightarrow> pyval \<Rightarrow> bool" where
  "general_occurs_in var (Str s) = (var = Str s)"
| "general_occurs_in var (Tuple []) = False"
| "general_occurs_in var (Tuple (f # as)) = (\<exists>arg \<in> set as. general_occurs_in var arg)"

fun general_subst :: "pyval dict \<Rightarrow> pyval \<Rightarrow> py_error + pyval" where
  "general_subst s (Str v) = Inr (dict_get s (Str v) (Str v))"
| "general_subst s (Tuple []) = Inl IndexError"
| "general_subst s (Tuple (f # as)) =
     (case sequence (map (general_subst s) as) of
        Inl e \<Rightarrow> Inl e
      | Inr as' \<Rightarrow> general_apply f as')"

definition GeneralUnifier :: "(pyval, pyval) unifier" where
  "GeneralUnifier =
     \<lparr>apply_fn = general_apply, is_var = general_is_var, fun_sym = general_fun_sym,
      args = general_args, hashable = general_hashable, occurs_in = general_occurs_in,
      subst_fn = general_subst\<rparr>"

subsection \<open>The combinator adapter: class \<open>Unifier\<close> of combinator\_calculus.py\<close>

text \<open>
  The function symbols the adapter handles: a \<open>PrimComb\<close> value, or the class \<open>App\<close>.
\<close>

datatype comb_sym = Prim string | AppClass

fun comb_apply :: "comb_sym \<Rightarrow> Term list \<Rightarrow> py_error + Term" where
  "comb_apply (Prim name) as = Inr (PrimComb name)"
| "comb_apply AppClass as =
     (case as of [left, right] \<Rightarrow> Inr (App left right) | _ \<Rightarrow> Inl ValueError)"

fun comb_is_var :: "Term \<Rightarrow> bool" where
  "comb_is_var (Var name) = True"
| "comb_is_var t = False"

fun comb_fun_sym :: "Term \<Rightarrow> py_error + comb_sym" where
  "comb_fun_sym (PrimComb name) = Inr (Prim name)"
| "comb_fun_sym (App left right) = Inr AppClass"
| "comb_fun_sym (Var name) = Inl ValueError"

fun comb_args :: "Term \<Rightarrow> py_error + Term list" where
  "comb_args (PrimComb name) = Inr []"
| "comb_args (App left right) = Inr [left, right]"
| "comb_args (Var name) = Inl ValueError"

text \<open>
  \<open>Var\<close>, \<open>PrimComb\<close> and \<open>App\<close> are dataclasses with the default \<open>eq=True\<close> and without
  \<open>frozen\<close>, so \<open>@dataclass\<close> sets their \<open>__hash__\<close> to \<open>None\<close>: no term has a hash.
\<close>

fun comb_hashable :: "Term \<Rightarrow> bool" where
  "comb_hashable t = False"

fun comb_occurs_in :: "Term \<Rightarrow> Term \<Rightarrow> bool" where
  "comb_occurs_in var (Var name) = (var = Var name)"
| "comb_occurs_in var (PrimComb name) = False"
| "comb_occurs_in var (App left right) = (comb_occurs_in var left \<or> comb_occurs_in var right)"

text \<open>
  \<open>subst\<close> of the adapter: for a variable, \<open>s.get(term, term)\<close> raises \<open>TypeError\<close>,
  since a \<open>Var\<close> has no hash.
\<close>

fun comb_subst :: "Term dict \<Rightarrow> Term \<Rightarrow> py_error + Term" where
  "comb_subst s (Var name) = Inl TypeError"
| "comb_subst s (PrimComb name) = comb_apply (Prim name) []"
| "comb_subst s (App left right) =
     (case sequence [comb_subst s left, comb_subst s right] of
        Inl e \<Rightarrow> Inl e
      | Inr as' \<Rightarrow> comb_apply AppClass as')"

definition CombUnifier :: "(comb_sym, Term) unifier" where
  "CombUnifier =
     \<lparr>apply_fn = comb_apply, is_var = comb_is_var, fun_sym = comb_fun_sym,
      args = comb_args, hashable = comb_hashable, occurs_in = comb_occurs_in,
      subst_fn = comb_subst\<rparr>"

subsection \<open>\<open>unify\<close>\<close>

text \<open>
  The two mutable objects \<open>unify\<close> works on: the list \<open>equations\<close>, a stack whose top is
  its last element (\<open>pop\<close> and \<open>append\<close> work at the end), and the dict \<open>subst\<close>.
\<close>

record 't ustate =
  equations :: "('t \<times> 't) list"
  subst :: "'t dict"

text \<open>
  A \<open>for\<close> loop that assigns \<open>f x\<close> to every position of a list in turn. When \<open>f\<close>
  raises, the positions before it have been assigned and the others have not.
\<close>

fun update_each :: "('a \<Rightarrow> 'e + 'a) \<Rightarrow> 'a list \<Rightarrow> ('e \<times> 'a list) + 'a list" where
  "update_each f [] = Inr []"
| "update_each f (x # xs) =
     (case f x of
        Inl e \<Rightarrow> Inl (e, x # xs)
      | Inr y \<Rightarrow>
          (case update_each f xs of
             Inl (e, ys) \<Rightarrow> Inl (e, y # ys)
           | Inr ys \<Rightarrow> Inr (y # ys)))"

text \<open>\<open>(cls.subst(new_subst, l), cls.subst(new_subst, r))\<close>\<close>

definition subst_equation ::
  "('f, 't) unifier \<Rightarrow> 't dict \<Rightarrow> 't \<times> 't \<Rightarrow> py_error + 't \<times> 't" where
  "subst_equation cls new_subst eq =
     (case subst_fn cls new_subst (fst eq) of
        Inl e \<Rightarrow> Inl e
      | Inr l \<Rightarrow>
          (case subst_fn cls new_subst (snd eq) of
             Inl e \<Rightarrow> Inl e
           | Inr r \<Rightarrow> Inr (l, r)))"

text \<open>\<open>subst[var] = cls.subst(new_subst, term)\<close>\<close>

definition subst_item ::
  "('f, 't) unifier \<Rightarrow> 't dict \<Rightarrow> 't \<times> 't \<Rightarrow> py_error + 't \<times> 't" where
  "subst_item cls new_subst item =
     (case subst_fn cls new_subst (snd item) of
        Inl e \<Rightarrow> Inl e
      | Inr term \<Rightarrow> Inr (fst item, term))"

text \<open>
  One pass through the \<open>while\<close> loop: \<open>Exit\<close> when \<open>equations\<close> is empty, \<open>Next\<close> with
  the two objects as the pass leaves them, or \<open>Raise\<close> with the exception and the two
  objects as they are when it is raised. The dict display \<open>{left: right}\<close> hashes
  \<open>left\<close>, and raises \<open>TypeError\<close> when \<open>left\<close> has no hash.
\<close>

datatype ('f, 't) step = Exit | Next "'t ustate" | Raise "('f, 't) error" "'t ustate"

definition unify_iter :: "('f, 't) unifier \<Rightarrow> 't ustate \<Rightarrow> ('f, 't) step" where
  "unify_iter cls st =
     (if equations st = [] then Exit
      else
        let (left, right) = last (equations st);
            st = st\<lparr>equations := butlast (equations st)\<rparr>
        in
        if left = right then Next st
        else if is_var cls left then
          (if occurs_in cls left right then Raise (OccursCheck left right) st
           else if \<not> hashable cls left then Raise (PyError TypeError) st
           else
             let new_subst = [(left, right)] in
             (case update_each (subst_equation cls new_subst) (equations st) of
                Inl (e, eqs) \<Rightarrow> Raise (PyError e) (st\<lparr>equations := eqs\<rparr>)
              | Inr eqs \<Rightarrow>
                  (case update_each (subst_item cls new_subst) (subst st) of
                     Inl (e, s) \<Rightarrow> Raise (PyError e) \<lparr>equations = eqs, subst = s\<rparr>
                   | Inr s \<Rightarrow> Next \<lparr>equations = eqs, subst = AList.update left right s\<rparr>)))
        else if is_var cls right then Next (st\<lparr>equations := equations st @ [(right, left)]\<rparr>)
        else
          (case fun_sym cls left of
             Inl e \<Rightarrow> Raise (PyError e) st
           | Inr f \<Rightarrow>
               (case fun_sym cls right of
                  Inl e \<Rightarrow> Raise (PyError e) st
                | Inr g \<Rightarrow>
                    if f \<noteq> g then Raise (SymbolMismatch f g) st
                    else
                      (case args cls left of
                         Inl e \<Rightarrow> Raise (PyError e) st
                       | Inr largs \<Rightarrow>
                           (case args cls right of
                              Inl e \<Rightarrow> Raise (PyError e) st
                            | Inr rargs \<Rightarrow>
                                Next (st\<lparr>equations := equations st @ zip largs rargs\<rparr>))))))"

text \<open>
  The \<open>while\<close> loop. It ends with \<open>Return\<close> at the \<open>return subst\<close> after the loop, or
  with \<open>Abort\<close> when a pass raises; \<open>None\<close> is a loop that runs forever.
\<close>

datatype ('f, 't) loop_end = Return "'t ustate" | Abort "('f, 't) error" "'t ustate"

partial_function (option) unify_loop ::
  "('f, 't) unifier \<Rightarrow> 't ustate \<Rightarrow> ('f, 't) loop_end option" where
  "unify_loop cls st =
     (case unify_iter cls st of
        Exit \<Rightarrow> Some (Return st)
      | Raise e st' \<Rightarrow> Some (Abort e st')
      | Next st' \<Rightarrow> unify_loop cls st')"

text \<open>
  The objects of the caller. A list or a dict is an address into the heap, so that two
  names for one object see the same contents; \<open>next_list\<close> and \<open>next_dict\<close> are the
  first addresses not in use. Terms are immutable values.
\<close>

record 't heap =
  lists :: "nat \<Rightarrow> ('t \<times> 't) list"
  dicts :: "nat \<Rightarrow> 't dict"
  next_list :: nat
  next_dict :: nat

definition new_list :: "'t heap \<Rightarrow> ('t \<times> 't) list \<Rightarrow> 't heap \<times> nat" where
  "new_list h xs =
     (h\<lparr>lists := (lists h)(next_list h := xs), next_list := next_list h + 1\<rparr>, next_list h)"

definition new_dict :: "'t heap \<Rightarrow> 't dict \<Rightarrow> 't heap \<times> nat" where
  "new_dict h d =
     (h\<lparr>dicts := (dicts h)(next_dict h := d), next_dict := next_dict h + 1\<rparr>, next_dict h)"

definition store :: "'t heap \<Rightarrow> nat \<Rightarrow> nat \<Rightarrow> 't ustate \<Rightarrow> 't heap" where
  "store h l d st =
     h\<lparr>lists := (lists h)(l := equations st), dicts := (dicts h)(d := subst st)\<rparr>"

text \<open>
  What a call leaves: \<open>Returned d h\<close> returns the dict at address \<open>d\<close> in the heap \<open>h\<close>,
  \<open>Raised e h\<close> raises \<open>e\<close> and leaves the heap \<open>h\<close>.
\<close>

datatype ('f, 't) outcome = Returned nat "'t heap" | Raised "('f, 't) error" "'t heap"

text \<open>
  \<open>if subst is None: subst = {}\<close>: the dict that the name \<open>subst\<close> stands for from
  then on, the caller's own or a new empty one.
\<close>

definition subst_object :: "'t heap \<Rightarrow> nat option \<Rightarrow> 't heap \<times> nat" where
  "subst_object h subst_arg = (case subst_arg of None \<Rightarrow> new_dict h [] | Some d \<Rightarrow> (h, d))"

text \<open>
  \<open>unify(equations, subst)\<close> in the heap \<open>h\<close>: \<open>equations_ref\<close> is the address of
  the caller's list, \<open>subst_arg\<close> is \<open>None\<close> or the address of the caller's dict. Every
  pass of the loop updates the list and the dict in place (\<open>pop\<close>, \<open>append\<close>, item
  assignment and \<open>|=\<close>) and nothing else touches them meanwhile, so their contents at
  the end of the call are the ones the loop ends with.
\<close>

definition unify ::
  "('f, 't) unifier \<Rightarrow> 't heap \<Rightarrow> nat \<Rightarrow> nat option \<Rightarrow> ('f, 't) outcome option" where
  "unify cls h equations_ref subst_arg =
     (let (h, subst_ref) = subst_object h subst_arg in
      case unify_loop cls \<lparr>equations = lists h equations_ref, subst = dicts h subst_ref\<rparr> of
        None \<Rightarrow> None
      | Some (Return st) \<Rightarrow> Some (Returned subst_ref (store h equations_ref subst_ref st))
      | Some (Abort e st) \<Rightarrow> Some (Raised e (store h equations_ref subst_ref st)))"

text \<open>\<open>unify2\<close> builds the one-element list \<open>[(left, right)]\<close> and calls \<open>unify\<close>.\<close>

definition unify2 ::
  "('f, 't) unifier \<Rightarrow> 't heap \<Rightarrow> 't \<Rightarrow> 't \<Rightarrow> nat option \<Rightarrow> ('f, 't) outcome option" where
  "unify2 cls h left right subst_arg =
     (let (h, equations_ref) = new_list h [(left, right)] in
      unify cls h equations_ref subst_arg)"

text \<open>The contents of the dict a call returns (\<open>None\<close> when it returns none).\<close>

fun returned_dict :: "('f, 't) outcome option \<Rightarrow> 't dict option" where
  "returned_dict (Some (Returned d h)) = Some (dicts h d)"
| "returned_dict r = None"

text \<open>A heap with no object in it.\<close>

definition empty_heap :: "'t heap" where
  "empty_heap = \<lparr>lists = (\<lambda>a. []), dicts = (\<lambda>a. []), next_list = 0, next_dict = 0\<rparr>"

section \<open>Vocabulary of the properties\<close>

subsection \<open>Combinator terms\<close>

text \<open>The terms built from \<open>S\<close>, \<open>K\<close> and \<open>App\<close> only.\<close>

fun sk_term :: "Term \<Rightarrow> bool" where
  "sk_term (Var name) = False"
| "sk_term (PrimComb name) = (name = ''S'' \<or> name = ''K'')"
| "sk_term (App left right) = (sk_term left \<and> sk_term right)"

text \<open>
  What the accumulator of the parser holds after the atoms of the printed form of \<open>t\<close>
  have been appended to \<open>acc\<close>.
\<close>

fun feed :: "Term option \<Rightarrow> Term \<Rightarrow> Term" where
  "feed acc (App left right) = App (feed acc left) right"
| "feed acc t = acc_append acc t"

subsection \<open>Runs of \<open>unify\<close>\<close>

text \<open>
  \<open>reaches cls st st'\<close>: started with the list and the dict as in \<open>st\<close>, the loop of
  \<open>unify\<close> stands at the head of a pass with them as in \<open>st'\<close>.
\<close>

inductive reaches :: "('f, 't) unifier \<Rightarrow> 't ustate \<Rightarrow> 't ustate \<Rightarrow> bool" for cls where
  at_start: "reaches cls st st"
| after_pass: "reaches cls st st' \<Longrightarrow> unify_iter cls st' = Next st'' \<Longrightarrow> reaches cls st st''"

text \<open>
  A dict is idempotent when no key of it occurs (in the sense of \<open>occurs_in\<close>) in a value
  of it.
\<close>

definition idempotent :: "('f, 't) unifier \<Rightarrow> 't dict \<Rightarrow> bool" where
  "idempotent cls d \<longleftrightarrow> (\<forall>k \<in> fst ` set d. \<forall>t \<in> snd ` set d. \<not> occurs_in cls k t)"

text \<open>
  The invariant of the loop: no key of the dict occurs in an equation still on the list
  or in a value of the dict.
\<close>

definition closed :: "('f, 't) unifier \<Rightarrow> 't ustate \<Rightarrow> bool" where
  "closed cls st \<longleftrightarrow>
     (\<forall>k \<in> fst ` set (subst st).
        (\<forall>eq \<in> set (equations st). \<not> occurs_in cls k (fst eq) \<and> \<not> occurs_in cls k (snd eq)) \<and>
        (\<forall>t \<in> snd ` set (subst st). \<not> occurs_in cls k t))"

text \<open>
  What the invariant needs of a class: a variable that occurs in \<open>subst({x: r}, t)\<close>
  occurs in \<open>r\<close>, or occurs in \<open>t\<close> and is not \<open>x\<close>; and a variable that occurs in an
  argument of an application occurs in the application.
\<close>

definition lawful :: "('f, 't) unifier \<Rightarrow> bool" where
  "lawful cls \<longleftrightarrow>
     (\<forall>x r t t' k. subst_fn cls [(x, r)] t = Inr t' \<longrightarrow> occurs_in cls k t' \<longrightarrow>
        (occurs_in cls k t \<and> k \<noteq> x) \<or> occurs_in cls k r) \<and>
     (\<forall>t as a k. \<not> is_var cls t \<longrightarrow> args cls t = Inr as \<longrightarrow> a \<in> set as \<longrightarrow>
        occurs_in cls k a \<longrightarrow> occurs_in cls k t)"

section \<open>Properties of the combinator calculus\<close>

declare parse_loop.simps [simp del]

subsection \<open>Single passes of the parser's loop\<close>

lemma parse_loop_atom:
  "i < length src \<Longrightarrow> src ! i = c \<Longrightarrow> c = CHR ''S'' \<or> c = CHR ''K'' \<Longrightarrow>
   parse_loop src i0 i acc = parse_loop src i0 (i + 1) (Some (acc_append acc (PrimComb [c])))"
  by (subst parse_loop.simps) auto

lemma parse_loop_open:
  "i < length src \<Longrightarrow> src ! i = CHR ''('' \<Longrightarrow>
   parse_loop src (i + 1) (i + 1) None = Inr (t, j) \<Longrightarrow>
   parse_loop src i0 i acc = parse_loop src i0 j (Some (acc_append acc t))"
  by (subst parse_loop.simps) auto

lemma parse_loop_close:
  "i < length src \<Longrightarrow> src ! i = CHR '')'' \<Longrightarrow> parse_loop src i0 i (Some a) = Inr (a, i + 1)"
  by (subst parse_loop.simps) auto

lemma parse_loop_end: "parse_loop src 0 (length src) (Some a) = Inr (a, length src)"
  by (subst parse_loop.simps) auto

subsection \<open>Reduction\<close>

text \<open>
  Claim C7. For all terms \<open>a\<close>, \<open>b\<close>, \<open>c\<close>, \<open>reduce1\<close> rewrites \<open>((S a) b) c\<close> to
  \<open>(a c)(b c)\<close> and \<open>(K a) b\<close> to \<open>a\<close>, at the root, whatever redexes \<open>a\<close>, \<open>b\<close> and
  \<open>c\<close> contain; in particular \<open>reduce1(App(App(K, S), K))\<close> is \<open>S\<close>.
\<close>

theorem reduce1_root_rules:
  "reduce1 (App (App (App S a) b) c) = Some (App (App a c) (App b c)) \<and>
   reduce1 (App (App K a) b) = Some a \<and>
   reduce1 (App (App K S) K) = Some S"
  by (simp add: s_rule_def k_rule_def S_def K_def)

lemma reduce1_never_None: "reduce1 t \<noteq> None"
  by (induction t) (auto split: option.splits)

lemma reduce_never_returns: "reduce t = None"
proof -
  have False if ret: "reduce t = Some y" for y
  proof (rule reduce.raw_induct[where P = "\<lambda>_ _. False", OF _ ret])
    fix f u v
    assume ih: "\<And>x y. f x = Some y \<Longrightarrow> False"
      and eq: "(case reduce1 u of None \<Rightarrow> Some u | Some reduced \<Rightarrow> f reduced) = Some v"
    from reduce1_never_None[of u] obtain w where "reduce1 u = Some w"
      by auto
    with eq have "f w = Some v"
      by simp
    then show False
      by (rule ih)
  qed
  then show ?thesis
    by (cases "reduce t") auto
qed

text \<open>
  Claim C1, at the inputs where the code departs from it. For a bare variable and for
  the primitive combinators \<open>S\<close> and \<open>K\<close>, \<open>reduce1\<close> returns the term itself, not
  \<open>None\<close>; and the term \<open>App(S, K)\<close>, which contains no redex, is returned as it is too.
\<close>

theorem reduce1_normal_forms_not_None:
  "reduce1 (Var ''x'') = Some (Var ''x'') \<and>
   reduce1 S = Some S \<and>
   reduce1 K = Some K \<and>
   reduce1 (App S K) = Some (App S K)"
  by (simp add: s_rule_def k_rule_def S_def K_def)

text \<open>
  The two rewrite steps from \<open>SKK X\<close> lead to \<open>X\<close>, as the identity \<open>SKK = I\<close> says.
\<close>

lemma reduce1_SKK_steps:
  "reduce1 (App (App (App S K) K) X) = Some (App (App K X) (App K X)) \<and>
   reduce1 (App (App K X) (App K X)) = Some X"
  by (simp add: s_rule_def k_rule_def S_def K_def)

text \<open>
  Claim C3, at the inputs where the code departs from it. \<open>parse("SKK")\<close> is the term
  \<open>App(App(S, K), K)\<close>, and \<open>reduce\<close> applied to its application to any term \<open>X\<close> never
  returns: no call of \<open>reduce1\<close> gives \<open>None\<close>, so the loop is never left.
\<close>

theorem reduce_SKK_never_returns:
  "parse ''SKK'' = Inr (App (App S K) K) \<and> reduce (App (App (App S K) K) X) = None"
proof
  show "parse ''SKK'' = Inr (App (App S K) K)"
    by (simp add: parse_def parse_term_def parse_loop.simps Let_def S_def K_def)
  show "reduce (App (App (App S K) K) X) = None"
    by (rule reduce_never_returns)
qed

subsection \<open>Errors of the parser\<close>

lemma parse_empty: "parse [] = Inl EmptyTerm"
  by (simp add: parse_def parse_term_def parse_loop.simps Let_def)

lemma parse_not_closed: "parse ''S(K'' = Inl (NotClosed 1)"
  by (simp add: parse_def parse_term_def parse_loop.simps Let_def)

lemma parse_invalid_character: "parse ''SX'' = Inl (InvalidCharacter 1)"
  by (simp add: parse_def parse_term_def parse_loop.simps Let_def)

lemma parse_extraneous_inside: "parse ''SK)S'' = Inl (ExtraneousClosing 2)"
  by (simp add: parse_def parse_term_def parse_loop.simps Let_def)

text \<open>
  Claim C4, at the input where the code departs from it. \<open>parse("SK)")\<close> raises nothing:
  the closing bracket is the last character, so \<open>parse_term\<close> returns the index
  \<open>len(src)\<close> and the test \<open>i != len(src)\<close> of \<open>parse\<close> does not see it.
\<close>

theorem parse_trailing_bracket_accepted: "parse ''SK)'' = Inr (App S K)"
  by (simp add: parse_def parse_term_def parse_loop.simps Let_def S_def K_def)

subsection \<open>Printing and parsing back\<close>

lemma feed_None: "sk_term t \<Longrightarrow> feed None t = t"
  by (induction t) auto

lemma parse_loop_str:
  "sk_term t \<Longrightarrow>
   parse_loop (p @ str t @ rest) i0 (length p) acc =
   parse_loop (p @ str t @ rest) i0 (length p + length (str t)) (Some (feed acc t))"
proof (induction t arbitrary: p rest acc i0)
  case (Var x)
  then show ?case by simp
next
  case (PrimComb n)
  then obtain c where n: "n = [c]" and c: "c = CHR ''S'' \<or> c = CHR ''K''"
    by auto
  show ?case
    using parse_loop_atom[of "length p" "p @ [c] @ rest" c i0 acc] c
    by (simp add: n)
next
  case (App l r)
  then have skl: "sk_term l" and skr: "sk_term r"
    by auto
  show ?case
  proof (cases r)
    case (Var x)
    with skr show ?thesis by simp
  next
    case (PrimComb n)
    have s: "str (App l r) = str l @ str r"
      by (simp add: PrimComb)
    have 1: "parse_loop (p @ str l @ str r @ rest) i0 (length p) acc =
          parse_loop (p @ str l @ str r @ rest) i0 (length p + length (str l)) (Some (feed acc l))"
      using App.IH(1)[OF skl, of p "str r @ rest" i0 acc] by simp
    have 2: "parse_loop ((p @ str l) @ str r @ rest) i0 (length (p @ str l)) (Some (feed acc l)) =
          parse_loop ((p @ str l) @ str r @ rest) i0 (length (p @ str l) + length (str r))
            (Some (feed (Some (feed acc l)) r))"
      by (rule App.IH(2)[OF skr])
    have 3: "feed (Some (feed acc l)) r = feed acc (App l r)"
      by (simp add: PrimComb)
    show ?thesis
      unfolding s using 1 2 3 by (simp add: add.assoc del: str.simps)
  next
    case (App r1 r2)
    let ?src = "p @ str l @ ''('' @ str r @ '')'' @ rest"
    let ?j = "length p + length (str l)"
    have s: "str (Term.App l r) = str l @ ''('' @ str r @ '')''"
      by (simp add: App)
    have 1: "parse_loop ?src i0 (length p) acc = parse_loop ?src i0 ?j (Some (feed acc l))"
      using App.IH(1)[OF skl, of p "''('' @ str r @ '')'' @ rest" i0 acc] by simp
    have 2: "parse_loop ?src (?j + 1) (?j + 1) None =
             parse_loop ?src (?j + 1) (?j + 1 + length (str r)) (Some r)"
      using App.IH(2)[OF skr, of "p @ str l @ ''(''" "'')'' @ rest" "?j + 1" None]
      by (simp add: feed_None[OF skr] add.assoc)
    have 3: "parse_loop ?src (?j + 1) (?j + 1 + length (str r)) (Some r) =
             Inr (r, ?j + 1 + length (str r) + 1)"
      by (rule parse_loop_close) (simp_all add: nth_append)
    have 4: "parse_loop ?src i0 ?j (Some (feed acc l)) =
             parse_loop ?src i0 (?j + 1 + length (str r) + 1)
               (Some (acc_append (Some (feed acc l)) r))"
      by (rule parse_loop_open[OF _ _ 2[unfolded 3]]) (simp_all add: nth_append)
    show ?thesis
      unfolding s using 1 4 by (simp add: add.assoc del: str.simps)
  qed
qed

text \<open>
  Claim C2. For every term \<open>t\<close> built only from \<open>S\<close>, \<open>K\<close> and \<open>App\<close>, parsing the
  printed form of \<open>t\<close> gives \<open>t\<close> back.
\<close>

theorem parse_str_roundtrip: "sk_term t \<Longrightarrow> parse (str t) = Inr t"
proof -
  assume sk: "sk_term t"
  have "parse_loop (str t) 0 0 None = parse_loop (str t) 0 (length (str t)) (Some t)"
    using parse_loop_str[OF sk, of "[]" "[]" 0 None] by (simp add: feed_None[OF sk])
  then show ?thesis
    by (simp add: parse_def parse_term_def parse_loop_end)
qed

theorem parse_str_roundtrip_witness:
  "sk_term (App (App S (App K S)) (App (App K K) S)) \<and>
   str (App (App S (App K S)) (App (App K K) S)) = ''S(KS)(KKS)'' \<and>
   parse (str (App (App S (App K S)) (App (App K K) S))) =
     Inr (App (App S (App K S)) (App (App K K) S))"
  using parse_str_roundtrip[of "App (App S (App K S)) (App (App K K) S)"]
  by (simp add: S_def K_def)

section \<open>Properties of unification\<close>

subsection \<open>The inherited methods of the two classes are the ones of the source\<close>

lemma general_occurs_in_unfold:
  "general_occurs_in var term =
       (if general_is_var term then var = term
        else case general_args term of Inl e \<Rightarrow> False
             | Inr as \<Rightarrow> \<exists>arg\<in>set as. general_occurs_in var arg)"
  by (cases "(var, term)" rule: general_occurs_in.cases) auto

lemma general_occurs_in_source: "occurs_in_source GeneralUnifier"
  unfolding occurs_in_source_def GeneralUnifier_def unifier.select_convs
  by (intro allI) (rule general_occurs_in_unfold)

lemma general_subst_unfold:
  "general_subst s term =
       (if general_is_var term then
          (if general_hashable term then Inr (dict_get s term term) else Inl TypeError)
        else case general_fun_sym term of Inl x \<Rightarrow> Inl x
             | Inr f \<Rightarrow>
                 case general_args term of Inl x \<Rightarrow> Inl x
                 | Inr as \<Rightarrow>
                     case sequence (map (general_subst s) as) of Inl x \<Rightarrow> Inl x
                     | Inr x \<Rightarrow> general_apply f x)"
  by (cases "(s, term)" rule: general_subst.cases) auto

lemma general_subst_source: "subst_source GeneralUnifier"
  unfolding subst_source_def GeneralUnifier_def unifier.select_convs
  by (intro allI) (rule general_subst_unfold)

lemma comb_occurs_in_unfold:
  "comb_occurs_in var term =
       (if comb_is_var term then var = term
        else case comb_args term of Inl e \<Rightarrow> False
             | Inr as \<Rightarrow> \<exists>arg\<in>set as. comb_occurs_in var arg)"
  by (cases "term") auto

lemma comb_occurs_in_source: "occurs_in_source CombUnifier"
  unfolding occurs_in_source_def CombUnifier_def unifier.select_convs
  by (intro allI) (rule comb_occurs_in_unfold)

lemma comb_subst_unfold:
  "comb_subst s term =
       (if comb_is_var term then
          (if comb_hashable term then Inr (dict_get s term term) else Inl TypeError)
        else case comb_fun_sym term of Inl x \<Rightarrow> Inl x
             | Inr f \<Rightarrow>
                 case comb_args term of Inl x \<Rightarrow> Inl x
                 | Inr as \<Rightarrow>
                     case sequence (map (comb_subst s) as) of Inl x \<Rightarrow> Inl x
                     | Inr x \<Rightarrow> comb_apply f x)"
  by (cases "term") auto

lemma comb_subst_source: "subst_source CombUnifier"
  unfolding subst_source_def CombUnifier_def unifier.select_convs
  by (intro allI) (rule comb_subst_unfold)

lemma general_args_total: "\<not> general_is_var t \<Longrightarrow> \<exists>as. general_args t = Inr as"
  by (cases t) auto

lemma comb_args_total: "\<not> comb_is_var t \<Longrightarrow> \<exists>as. comb_args t = Inr as"
  by (cases t) auto

subsection \<open>Loops over lists\<close>

lemma sequence_map_Inr:
  "sequence (map g xs) = Inr ys \<Longrightarrow> list_all2 (\<lambda>x y. g x = Inr y) xs ys"
  by (induction xs arbitrary: ys) (auto split: sum.splits)

lemma update_each_Inr:
  "update_each f xs = Inr ys \<Longrightarrow> list_all2 (\<lambda>x y. f x = Inr y) xs ys"
  by (induction xs arbitrary: ys) (auto split: sum.splits prod.splits)

lemma list_all2_set_right:
  "list_all2 R xs ys \<Longrightarrow> y \<in> set ys \<Longrightarrow> \<exists>x \<in> set xs. R x y"
  by (induction rule: list_all2_induct) auto

subsection \<open>Occurrences after a substitution, in the two classes\<close>

lemma general_subst_occurs:
  "general_subst [(x, r)] t = Inr t' \<Longrightarrow> general_occurs_in k t' \<Longrightarrow>
   (general_occurs_in k t \<and> k \<noteq> x) \<or> general_occurs_in k r"
proof (induction t arbitrary: t')
  case (Str v)
  then show ?case
    by (auto simp: dict_get_def split: if_splits)
next
  case (Tuple xs)
  show ?case
  proof (cases xs)
    case Nil
    with Tuple.prems show ?thesis by simp
  next
    case (Cons f as)
    with Tuple.prems obtain as' where
      seq: "sequence (map (general_subst [(x, r)]) as) = Inr as'" and t': "t' = Tuple (f # as')"
      by (auto simp: general_apply_def split: sum.splits)
    from Tuple.prems(2) t' obtain a' where a': "a' \<in> set as'" "general_occurs_in k a'"
      by auto
    from list_all2_set_right[OF sequence_map_Inr[OF seq] a'(1)]
    obtain a where a: "a \<in> set as" "general_subst [(x, r)] a = Inr a'"
      by auto
    from a(1) Cons have "a \<in> set xs" by simp
    from Tuple.IH[OF this a(2) a'(2)] a(1) Cons show ?thesis
      by auto
  qed
qed

lemma general_args_occurs:
  "\<not> general_is_var t \<Longrightarrow> general_args t = Inr as \<Longrightarrow> a \<in> set as \<Longrightarrow>
   general_occurs_in k a \<Longrightarrow> general_occurs_in k t"
  by (cases "(k, t)" rule: general_occurs_in.cases) auto

lemma lawful_GeneralUnifier: "lawful GeneralUnifier"
  unfolding lawful_def GeneralUnifier_def unifier.select_convs
  using general_subst_occurs general_args_occurs by blast

lemma comb_subst_occurs:
  "comb_subst [(x, r)] t = Inr t' \<Longrightarrow> comb_occurs_in k t' \<Longrightarrow>
   (comb_occurs_in k t \<and> k \<noteq> x) \<or> comb_occurs_in k r"
proof (induction t arbitrary: t')
  case (Var n)
  then show ?case by (auto simp: dict_get_def split: if_splits)
next
  case (PrimComb n)
  then show ?case by auto
next
  case (App l r')
  then show ?case
    by (fastforce split: sum.splits)
qed

lemma comb_args_occurs:
  "comb_args t = Inr as \<Longrightarrow> a \<in> set as \<Longrightarrow> comb_occurs_in k a \<Longrightarrow> comb_occurs_in k t"
  by (cases t) auto

lemma lawful_CombUnifier: "lawful CombUnifier"
  unfolding lawful_def CombUnifier_def unifier.select_convs
  using comb_subst_occurs comb_args_occurs by blast

subsection \<open>A rule for the loop of \<open>unify\<close>\<close>

text \<open>
  Whatever holds at the start and is kept by every pass holds at the head of the pass
  in which the loop ends.
\<close>

lemma unify_loop_rule:
  assumes run: "unify_loop cls st = Some r"
    and inv: "I st"
    and step: "\<And>s s'. I s \<Longrightarrow> unify_iter cls s = Next s' \<Longrightarrow> I s'"
  shows "\<exists>s. I s \<and> (case r of Return s' \<Rightarrow> s' = s \<and> unify_iter cls s = Exit
                         | Abort e s' \<Rightarrow> unify_iter cls s = Raise e s')"
proof -
  have "c = cls \<longrightarrow> I s0 \<longrightarrow>
        (\<exists>s. I s \<and> (case r0 of Return s' \<Rightarrow> s' = s \<and> unify_iter cls s = Exit
                         | Abort e s' \<Rightarrow> unify_iter cls s = Raise e s'))"
    if "unify_loop c s0 = Some r0" for c s0 r0
  proof (rule unify_loop.raw_induct[where P = "\<lambda>c s0 r0. c = cls \<longrightarrow> I s0 \<longrightarrow>
        (\<exists>s. I s \<and> (case r0 of Return s' \<Rightarrow> s' = s \<and> unify_iter cls s = Exit
                         | Abort e s' \<Rightarrow> unify_iter cls s = Raise e s'))", OF _ that])
    fix f c s0 r0
    assume ih: "\<And>c s0 r0. f c s0 = Some r0 \<Longrightarrow> c = cls \<longrightarrow> I s0 \<longrightarrow>
        (\<exists>s. I s \<and> (case r0 of Return s' \<Rightarrow> s' = s \<and> unify_iter cls s = Exit
                         | Abort e s' \<Rightarrow> unify_iter cls s = Raise e s'))"
      and eq: "(case unify_iter c s0 of Exit \<Rightarrow> Some (Return s0)
                | Next st' \<Rightarrow> f c st' | Raise e st' \<Rightarrow> Some (Abort e st')) = Some r0"
    show "c = cls \<longrightarrow> I s0 \<longrightarrow>
        (\<exists>s. I s \<and> (case r0 of Return s' \<Rightarrow> s' = s \<and> unify_iter cls s = Exit
                         | Abort e s' \<Rightarrow> unify_iter cls s = Raise e s'))"
    proof (intro impI)
      assume c: "c = cls" and i: "I s0"
      show "\<exists>s. I s \<and> (case r0 of Return s' \<Rightarrow> s' = s \<and> unify_iter cls s = Exit
                         | Abort e s' \<Rightarrow> unify_iter cls s = Raise e s')"
      proof (cases "unify_iter cls s0")
        case Exit
        with eq c i show ?thesis by auto
      next
        case (Next s1)
        with eq c have "f cls s1 = Some r0" by simp
        moreover from step[OF i Next] have "I s1" .
        ultimately show ?thesis using ih by blast
      next
        case (Raise e s1)
        with eq c i show ?thesis by auto
      qed
    qed
  qed
  with run inv show ?thesis by blast
qed

subsection \<open>The invariant of the loop\<close>

lemma closed_idempotent: "closed cls st \<Longrightarrow> idempotent cls (subst st)"
  by (auto simp: closed_def idempotent_def)

lemma closed_empty: "closed cls \<lparr>equations = eqs, subst = []\<rparr>"
  by (simp add: closed_def)

lemma set_update_subset: "set (AList.update k v al) \<subseteq> insert (k, v) (set al)"
  by (induction al) auto

lemma lawful_subst:
  "lawful cls \<Longrightarrow> subst_fn cls [(x, r)] t = Inr t' \<Longrightarrow> \<not> occurs_in cls k r \<Longrightarrow>
   \<not> occurs_in cls k t \<or> k = x \<Longrightarrow> \<not> occurs_in cls k t'"
  unfolding lawful_def by blast

lemma lawful_args:
  "lawful cls \<Longrightarrow> \<not> is_var cls t \<Longrightarrow> args cls t = Inr as \<Longrightarrow> a \<in> set as \<Longrightarrow>
   \<not> occurs_in cls k t \<Longrightarrow> \<not> occurs_in cls k a"
  unfolding lawful_def by blast

lemma closed_bind:
  assumes law: "lawful cls"
    and cl: "closed cls \<lparr>equations = eqs @ [(left, right)], subst = s\<rparr>"
    and noc: "\<not> occurs_in cls left right"
    and eqs': "update_each (subst_equation cls [(left, right)]) eqs = Inr eqs'"
    and s': "update_each (subst_item cls [(left, right)]) s = Inr s'"
  shows "closed cls \<lparr>equations = eqs', subst = AList.update left right s'\<rparr>"
proof -
  have old: "\<not> occurs_in cls k left" "\<not> occurs_in cls k right"
      "\<And>l r. (l, r) \<in> set eqs \<Longrightarrow> \<not> occurs_in cls k l \<and> \<not> occurs_in cls k r"
      "\<And>v t. (v, t) \<in> set s \<Longrightarrow> \<not> occurs_in cls k t"
    if "k \<in> fst ` set s" for k
    using cl that by (fastforce simp: closed_def)+
  have keys: "fst ` set s' = fst ` set s"
    using update_each_Inr[OF s']
    by (induction rule: list_all2_induct) (auto simp: subst_item_def split: sum.splits)
  have key_cases: "k = left \<or> k \<in> fst ` set s"
    if "k \<in> fst ` set (AList.update left right s')" for k
    using that keys by (auto simp: dom_update)
  have good: "\<not> occurs_in cls k right \<and> (\<forall>t. \<not> occurs_in cls k t \<or> k = left \<longrightarrow> True)"
    if "k \<in> fst ` set (AList.update left right s')" for k
    using key_cases[OF that] noc old(2) by auto
  have tnew: "\<not> occurs_in cls k t'"
    if k: "k \<in> fst ` set (AList.update left right s')"
      and sub: "subst_fn cls [(left, right)] t = Inr t'"
      and t: "k \<in> fst ` set s \<Longrightarrow> \<not> occurs_in cls k t" for k t t'
  proof -
    from key_cases[OF k] have "\<not> occurs_in cls k t \<or> k = left"
      using t by auto
    moreover from good[OF k] have "\<not> occurs_in cls k right" by simp
    ultimately show ?thesis
      using lawful_subst[OF law sub] by blast
  qed
  show ?thesis
    unfolding closed_def
  proof (intro ballI conjI; simp only: ustate.simps)
    fix k eq
    assume k: "k \<in> fst ` set (AList.update left right s')" and eq: "eq \<in> set eqs'"
    from list_all2_set_right[OF update_each_Inr[OF eqs'] eq]
    obtain eq0 where eq0: "eq0 \<in> set eqs" "subst_equation cls [(left, right)] eq0 = Inr eq"
      by auto
    from eq0(2) have l: "subst_fn cls [(left, right)] (fst eq0) = Inr (fst eq)"
      and r: "subst_fn cls [(left, right)] (snd eq0) = Inr (snd eq)"
      by (auto simp: subst_equation_def split: sum.splits)
    from eq0(1) have o: "k \<in> fst ` set s \<Longrightarrow> \<not> occurs_in cls k (fst eq0) \<and> \<not> occurs_in cls k (snd eq0)"
      using old(3)[of k "fst eq0" "snd eq0"] by simp
    show "\<not> occurs_in cls k (fst eq)"
      using tnew[OF k l] o by blast
    show "\<not> occurs_in cls k (snd eq)"
      using tnew[OF k r] o by blast
  next
    fix k t
    assume k: "k \<in> fst ` set (AList.update left right s')"
      and t: "t \<in> snd ` set (AList.update left right s')"
    from t obtain v where "(v, t) \<in> set (AList.update left right s')" by auto
    with set_update_subset[of left right s'] have "(v, t) = (left, right) \<or> (v, t) \<in> set s'"
      by blast
    then show "\<not> occurs_in cls k t"
    proof
      assume "(v, t) = (left, right)"
      with good[OF k] show ?thesis by simp
    next
      assume "(v, t) \<in> set s'"
      from list_all2_set_right[OF update_each_Inr[OF s'] this]
      obtain it where it: "it \<in> set s" "subst_item cls [(left, right)] it = Inr (v, t)"
        by auto
      from it(2) have sub: "subst_fn cls [(left, right)] (snd it) = Inr t"
        by (auto simp: subst_item_def split: sum.splits)
      from it(1) have "k \<in> fst ` set s \<Longrightarrow> \<not> occurs_in cls k (snd it)"
        using old(4)[of k "fst it" "snd it"] by simp
      with tnew[OF k sub] show ?thesis by blast
    qed
  qed
qed

lemma unify_iter_empty: "unify_iter cls \<lparr>equations = [], subst = s\<rparr> = Exit"
  by (simp add: unify_iter_def)

lemma unify_iter_pop:
  "unify_iter cls \<lparr>equations = eqs @ [(left, right)], subst = s\<rparr> =
     (if left = right then Next \<lparr>equations = eqs, subst = s\<rparr>
      else if is_var cls left then
        (if occurs_in cls left right
         then Raise (OccursCheck left right) \<lparr>equations = eqs, subst = s\<rparr>
         else if \<not> hashable cls left
         then Raise (PyError TypeError) \<lparr>equations = eqs, subst = s\<rparr>
         else
           (case update_each (subst_equation cls [(left, right)]) eqs of
              Inl (e, eqs') \<Rightarrow> Raise (PyError e) \<lparr>equations = eqs', subst = s\<rparr>
            | Inr eqs' \<Rightarrow>
                (case update_each (subst_item cls [(left, right)]) s of
                   Inl (e, s') \<Rightarrow> Raise (PyError e) \<lparr>equations = eqs', subst = s'\<rparr>
                 | Inr s' \<Rightarrow> Next \<lparr>equations = eqs', subst = AList.update left right s'\<rparr>)))
      else if is_var cls right then Next \<lparr>equations = eqs @ [(right, left)], subst = s\<rparr>
      else
        (case fun_sym cls left of
           Inl e \<Rightarrow> Raise (PyError e) \<lparr>equations = eqs, subst = s\<rparr>
         | Inr f \<Rightarrow>
             (case fun_sym cls right of
                Inl e \<Rightarrow> Raise (PyError e) \<lparr>equations = eqs, subst = s\<rparr>
              | Inr g \<Rightarrow>
                  if f \<noteq> g then Raise (SymbolMismatch f g) \<lparr>equations = eqs, subst = s\<rparr>
                  else
                    (case args cls left of
                       Inl e \<Rightarrow> Raise (PyError e) \<lparr>equations = eqs, subst = s\<rparr>
                     | Inr largs \<Rightarrow>
                         (case args cls right of
                            Inl e \<Rightarrow> Raise (PyError e) \<lparr>equations = eqs, subst = s\<rparr>
                          | Inr rargs \<Rightarrow>
                              Next \<lparr>equations = eqs @ zip largs rargs, subst = s\<rparr>)))))"
  by (simp add: unify_iter_def Let_def split: sum.splits prod.splits)

lemma ustate_cases:
  obtains s where "st = \<lparr>equations = [], subst = s\<rparr>"
  | eqs left right s where "st = \<lparr>equations = eqs @ [(left, right)], subst = s\<rparr>"
proof (cases st)
  case (fields es s)
  show ?thesis
  proof (cases es rule: rev_cases)
    case Nil
    with fields that(1) show ?thesis by simp
  next
    case (snoc eqs eq)
    with fields that(2)[of eqs "fst eq" "snd eq" s] show ?thesis by simp
  qed
qed

lemma closed_iter:
  assumes law: "lawful cls" and cl: "closed cls st" and it: "unify_iter cls st = Next st'"
  shows "closed cls st'"
proof (cases st rule: ustate_cases)
  case (1 s)
  with it show ?thesis by (simp add: unify_iter_empty)
next
  case (2 eqs left right s)
  note st = 2
  have cl0: "closed cls \<lparr>equations = eqs @ [(left, right)], subst = s\<rparr>"
    using cl st by simp
  have drop: "closed cls \<lparr>equations = eqs, subst = s\<rparr>"
    using cl0 by (auto simp: closed_def)
  have noleft: "\<not> occurs_in cls k left" and noright: "\<not> occurs_in cls k right"
    if "k \<in> fst ` set s" for k
    using cl0 that by (auto simp: closed_def)
  note it' = it[unfolded st unify_iter_pop]
  show ?thesis
  proof (cases "left = right")
    case True
    with it' have "st' = \<lparr>equations = eqs, subst = s\<rparr>"
      by simp
    with drop show ?thesis by simp
  next
    case neq: False
    show ?thesis
    proof (cases "is_var cls left")
      case True
      with it' neq obtain eqs' s' where
        noc: "\<not> occurs_in cls left right" and
        e: "update_each (subst_equation cls [(left, right)]) eqs = Inr eqs'" and
        s: "update_each (subst_item cls [(left, right)]) s = Inr s'" and
        st': "st' = \<lparr>equations = eqs', subst = AList.update left right s'\<rparr>"
        by (auto split: if_splits sum.splits prod.splits)
      from closed_bind[OF law cl0 noc e s] st' show ?thesis by simp
    next
      case nvl: False
      show ?thesis
      proof (cases "is_var cls right")
        case True
        with it' neq nvl have "st' = \<lparr>equations = eqs @ [(right, left)], subst = s\<rparr>"
          by simp
        with cl0 show ?thesis by (auto simp: closed_def)
      next
        case nvr: False
        with it' neq nvl obtain largs rargs where
          la: "args cls left = Inr largs" and ra: "args cls right = Inr rargs" and
          st': "st' = \<lparr>equations = eqs @ zip largs rargs, subst = s\<rparr>"
          by (auto split: if_splits sum.splits)
        have "\<not> occurs_in cls k (fst eq) \<and> \<not> occurs_in cls k (snd eq)"
          if k: "k \<in> fst ` set s" and eq: "eq \<in> set (zip largs rargs)" for k eq
        proof -
          from eq have "fst eq \<in> set largs" "snd eq \<in> set rargs"
            using set_zip_leftD[of "fst eq" "snd eq"] set_zip_rightD[of "fst eq" "snd eq"]
            by auto
          with lawful_args[OF law nvl la _ noleft[OF k]] lawful_args[OF law nvr ra _ noright[OF k]]
          show ?thesis by blast
        qed
        then have "\<forall>k \<in> fst ` set s. \<forall>eq \<in> set (zip largs rargs).
            \<not> occurs_in cls k (fst eq) \<and> \<not> occurs_in cls k (snd eq)"
          by blast
        with drop show ?thesis
          unfolding st' closed_def by (simp add: ball_Un)
      qed
    qed
  qed
qed

lemma closed_loop:
  assumes "lawful cls" "closed cls st" "unify_loop cls st = Some (Return st')"
  shows "closed cls st' \<and> equations st' = []"
proof -
  from unify_loop_rule[OF assms(3), of "closed cls", OF assms(2) closed_iter[OF assms(1)]]
  have "closed cls st'" "unify_iter cls st' = Exit" by auto
  then show ?thesis
    by (cases st' rule: ustate_cases) (auto simp: unify_iter_pop split: if_splits prod.splits sum.splits)
qed

subsection \<open>The loop and the passes it is made of\<close>

lemma unify_loop_Next: "unify_iter cls st = Next st' \<Longrightarrow> unify_loop cls st = unify_loop cls st'"
  by (subst unify_loop.simps) simp

lemma unify_loop_Raise: "unify_iter cls st = Raise e st' \<Longrightarrow> unify_loop cls st = Some (Abort e st')"
  by (subst unify_loop.simps) simp

lemma unify_loop_Exit: "unify_iter cls st = Exit \<Longrightarrow> unify_loop cls st = Some (Return st)"
  by (subst unify_loop.simps) simp

lemma reaches_unify_loop: "reaches cls st st' \<Longrightarrow> unify_loop cls st = unify_loop cls st'"
  by (induction rule: reaches.induct) (simp_all add: unify_loop_Next)

lemma unify_loop_Abort_iff:
  "unify_loop cls st0 = Some (Abort e st') \<longleftrightarrow>
   (\<exists>st. reaches cls st0 st \<and> unify_iter cls st = Raise e st')"
proof
  assume run: "unify_loop cls st0 = Some (Abort e st')"
  from unify_loop_rule[OF run, of "reaches cls st0", OF at_start after_pass]
  show "\<exists>st. reaches cls st0 st \<and> unify_iter cls st = Raise e st'"
    by auto
next
  assume "\<exists>st. reaches cls st0 st \<and> unify_iter cls st = Raise e st'"
  then obtain st where "reaches cls st0 st" "unify_iter cls st = Raise e st'"
    by blast
  then show "unify_loop cls st0 = Some (Abort e st')"
    by (simp add: reaches_unify_loop unify_loop_Raise)
qed

lemma unify_loop_Return_iff:
  "unify_loop cls st0 = Some (Return st') \<longleftrightarrow>
   (reaches cls st0 st' \<and> equations st' = [])"
proof
  assume run: "unify_loop cls st0 = Some (Return st')"
  from unify_loop_rule[OF run, of "reaches cls st0", OF at_start after_pass]
  have "reaches cls st0 st'" "unify_iter cls st' = Exit" by auto
  then show "reaches cls st0 st' \<and> equations st' = []"
    by (cases st' rule: ustate_cases) (auto simp: unify_iter_pop split: if_splits prod.splits sum.splits)
next
  assume "reaches cls st0 st' \<and> equations st' = []"
  then have "reaches cls st0 st'" and "unify_iter cls st' = Exit"
    by (simp_all add: unify_iter_def)
  then show "unify_loop cls st0 = Some (Return st')"
    using reaches_unify_loop[of cls st0 st'] unify_loop_Exit[of cls st'] by simp
qed

lemma unify_Raised_iff:
  assumes "subst_object h a = (h1, d)"
  shows "unify cls h e a = Some (Raised err h') \<longleftrightarrow>
     (\<exists>st'. unify_loop cls \<lparr>equations = lists h1 e, subst = dicts h1 d\<rparr> = Some (Abort err st') \<and>
        h' = store h1 e d st')"
  using assms by (auto simp: unify_def split: option.splits loop_end.splits)

lemma unify_Returned_iff:
  assumes "subst_object h a = (h1, d)"
  shows "unify cls h e a = Some (Returned d' h') \<longleftrightarrow>
     (\<exists>st'. unify_loop cls \<lparr>equations = lists h1 e, subst = dicts h1 d\<rparr> = Some (Return st') \<and>
        d' = d \<and> h' = store h1 e d st')"
  using assms by (auto simp: unify_def split: option.splits loop_end.splits)

lemma raise_occurs_iff:
  "unify_iter cls st = Raise (OccursCheck l r) st' \<longleftrightarrow>
     (\<exists>eqs s. st = \<lparr>equations = eqs @ [(l, r)], subst = s\<rparr> \<and>
        st' = \<lparr>equations = eqs, subst = s\<rparr> \<and> l \<noteq> r \<and> is_var cls l \<and> occurs_in cls l r)"
  by (cases st rule: ustate_cases)
    (auto simp: unify_iter_empty unify_iter_pop split: sum.splits prod.splits)

lemma raise_mismatch_iff:
  "unify_iter cls st = Raise (SymbolMismatch f g) st' \<longleftrightarrow>
     (\<exists>eqs l r s. st = \<lparr>equations = eqs @ [(l, r)], subst = s\<rparr> \<and>
        st' = \<lparr>equations = eqs, subst = s\<rparr> \<and> l \<noteq> r \<and> \<not> is_var cls l \<and> \<not> is_var cls r \<and>
        fun_sym cls l = Inr f \<and> fun_sym cls r = Inr g \<and> f \<noteq> g)"
  by (cases st rule: ustate_cases)
    (auto simp: unify_iter_empty unify_iter_pop split: sum.splits prod.splits)

lemma lists_store [simp]: "lists (store h e d st) e = equations st"
  by (simp add: store_def)

lemma dicts_store [simp]: "dicts (store h e d st) d = subst st"
  by (simp add: store_def)

lemma store_inject: "store h e d st = store h e d st' \<Longrightarrow> st = st'"
proof -
  assume eq: "store h e d st = store h e d st'"
  have "equations st = equations st'"
    using arg_cong[OF eq, of "\<lambda>x. lists x e"] by (simp only: lists_store)
  moreover have "subst st = subst st'"
    using arg_cong[OF eq, of "\<lambda>x. dicts x d"] by (simp only: dicts_store)
  ultimately show ?thesis by simp
qed

text \<open>The equations that evaluate a call of \<open>unify\<close> on given objects.\<close>

lemmas unify_eval =
  unify2_def unify_def subst_object_def new_list_def new_dict_def empty_heap_def store_def
  unify_loop.simps unify_iter_def Let_def subst_equation_def subst_item_def dict_get_def
  GeneralUnifier_def general_apply_def CombUnifier_def

subsection \<open>The examples of \<open>unify2\<close>\<close>

text \<open>
  Claim C9. With \<open>GeneralUnifier\<close>, in any heap,
  \<open>unify2(("f","x","y"), ("f","y","x"))\<close> returns the dict \<open>{"y": "x"}\<close> and
  \<open>unify2(("f","x",("g","y","z")), ("f","x","w"))\<close> returns \<open>{"w": ("g","y","z")}\<close>.
\<close>

theorem unify2_examples:
  "returned_dict (unify2 GeneralUnifier h
      (Tuple [Str ''f'', Str ''x'', Str ''y''])
      (Tuple [Str ''f'', Str ''y'', Str ''x'']) None) =
     Some [(Str ''y'', Str ''x'')] \<and>
   returned_dict (unify2 GeneralUnifier h
      (Tuple [Str ''f'', Str ''x'', Tuple [Str ''g'', Str ''y'', Str ''z'']])
      (Tuple [Str ''f'', Str ''x'', Str ''w'']) None) =
     Some [(Str ''w'', Tuple [Str ''g'', Str ''y'', Str ''z''])]"
  by (simp add: unify_eval)

text \<open>The two other doctests of \<open>unify2\<close>: the calls that raise.\<close>

lemma unify2_doctest_errors:
  "(\<exists>h'. unify2 GeneralUnifier h
      (Tuple [Str ''f'', Str ''x'', Tuple [Str ''g'', Str ''y'', Str ''z'']])
      (Tuple [Str ''f'', Str ''y'', Str ''x'']) None =
     Some (Raised (OccursCheck (Str ''y'') (Tuple [Str ''g'', Str ''y'', Str ''z''])) h')) \<and>
   (\<exists>h'. unify2 GeneralUnifier h
      (Tuple [Str ''f'', Str ''x'', Tuple [Str ''g'', Str ''y'', Str ''z'']])
      (Tuple [Str ''f'', Str ''x'', Tuple [Str ''h'', Str ''w'']]) None =
     Some (Raised (SymbolMismatch (Str ''g'') (Str ''h'')) h'))"
  by (simp add: unify_eval)

subsection \<open>The laws of a term algebra\<close>

text \<open>
  Claim C6, as amended. With \<open>GeneralUnifier\<close>, \<open>fun_sym(apply(f, args)) == f\<close> and
  \<open>args(apply(f, args)) == args\<close> for every \<open>f\<close> and every \<open>args\<close>. With the combinator
  adapter, \<open>fun_sym(apply(f, args)) == f\<close> holds for a primitive combinator \<open>f\<close> with any
  \<open>args\<close> and for \<open>App\<close> with two arguments, and \<open>args(apply(f, args)) == args\<close> holds
  at the arity of the symbol: no argument for a primitive combinator, two for \<open>App\<close>.
  \<open>apply\<close> of a primitive combinator returns the combinator whatever the arguments,
  and \<open>apply\<close> of \<open>App\<close> to any other number of arguments than two raises \<open>ValueError\<close>.
\<close>

theorem term_algebra_laws:
  "(case general_apply f as of Inl e \<Rightarrow> Inl e | Inr t \<Rightarrow> general_fun_sym t) = Inr f \<and>
   (case general_apply f as of Inl e \<Rightarrow> Inl e | Inr t \<Rightarrow> general_args t) = Inr as \<and>
   (case comb_apply (Prim name) cas of Inl e \<Rightarrow> Inl e | Inr t \<Rightarrow> comb_fun_sym t) =
     Inr (Prim name) \<and>
   (case comb_apply (Prim name) [] of Inl e \<Rightarrow> Inl e | Inr t \<Rightarrow> comb_args t) = Inr [] \<and>
   (case comb_apply AppClass [left, right] of Inl e \<Rightarrow> Inl e | Inr t \<Rightarrow> comb_fun_sym t) =
     Inr AppClass \<and>
   (case comb_apply AppClass [left, right] of Inl e \<Rightarrow> Inl e | Inr t \<Rightarrow> comb_args t) =
     Inr [left, right] \<and>
   comb_apply (Prim name) cas = Inr (PrimComb name) \<and>
   comb_apply AppClass cas =
     (if length cas = 2 then Inr (App (cas ! 0) (cas ! 1)) else Inl ValueError)"
  by (auto simp: general_apply_def split: list.splits)

text \<open>
  Claim C6 as stated fails for the adapter: \<open>apply(S, (K,))\<close> is \<open>S\<close>, whose arguments are
  \<open>()\<close> and not \<open>(K,)\<close>; and \<open>apply(App, (K,))\<close> raises.
\<close>

theorem adapter_args_law_counterexample:
  "comb_apply (Prim ''S'') [K] = Inr S \<and> comb_args S = Inr [] \<and>
   (case comb_apply (Prim ''S'') [K] of Inl e \<Rightarrow> Inl e | Inr t \<Rightarrow> comb_args t) \<noteq> Inr [K] \<and>
   comb_apply AppClass [K] = Inl ValueError"
  by (simp add: S_def K_def)

subsection \<open>The returned substitution is idempotent\<close>

lemma unify_idempotent:
  assumes law: "lawful cls"
    and ret: "unify cls h e a = Some (Returned d h')"
    and pre: "\<forall>d0. a = Some d0 \<longrightarrow> closed cls \<lparr>equations = lists h e, subst = dicts h d0\<rparr>"
  shows "idempotent cls (dicts h' d)"
proof -
  obtain h1 d1 where so: "subst_object h a = (h1, d1)"
    by (cases "subst_object h a")
  from ret[unfolded unify_Returned_iff[OF so]] obtain st' where
    run: "unify_loop cls \<lparr>equations = lists h1 e, subst = dicts h1 d1\<rparr> = Some (Return st')"
    and d: "d = d1" and h': "h' = store h1 e d1 st'"
    by blast
  have "closed cls \<lparr>equations = lists h1 e, subst = dicts h1 d1\<rparr>"
  proof (cases a)
    case None
    with so show ?thesis
      by (auto simp: subst_object_def new_dict_def closed_def)
  next
    case (Some d0)
    with so pre show ?thesis
      by (auto simp: subst_object_def)
  qed
  from closed_loop[OF law this run] have "closed cls st'" by simp
  then have "idempotent cls (subst st')" by (rule closed_idempotent)
  then show ?thesis by (simp add: d h' store_def)
qed

text \<open>
  Where the loop starts with its invariant, the dict returned is idempotent: in a call
  with \<open>subst=None\<close>, or with a dict none of whose keys occurs in a value of that dict
  or in an equation of the list (an empty dict, for one).
\<close>

lemma unify_idempotent_from_closed:
  "(unify GeneralUnifier h e a = Some (Returned d h') \<and>
    (\<forall>d0. a = Some d0 \<longrightarrow> closed GeneralUnifier \<lparr>equations = lists h e, subst = dicts h d0\<rparr>)
    \<longrightarrow> idempotent GeneralUnifier (dicts h' d)) \<and>
   (unify CombUnifier hc ec ac = Some (Returned dc hc') \<and>
    (\<forall>d0. ac = Some d0 \<longrightarrow> closed CombUnifier \<lparr>equations = lists hc ec, subst = dicts hc d0\<rparr>)
    \<longrightarrow> idempotent CombUnifier (dicts hc' dc))"
  using unify_idempotent[OF lawful_GeneralUnifier] unify_idempotent[OF lawful_CombUnifier]
  by blast

text \<open>
  Such a call: \<open>GeneralUnifier\<close> with the caller's dict \<open>{"z": ("a",)}\<close> and the list
  \<open>[("x", ("g", "y"))]\<close>.
\<close>

lemma unify_idempotent_example:
  "closed GeneralUnifier
     \<lparr>equations = [(Str ''x'', Tuple [Str ''g'', Str ''y''])],
      subst = [(Str ''z'', Tuple [Str ''a''])]\<rparr> \<and>
   returned_dict
     (unify GeneralUnifier
        (fst (new_dict (fst (new_list empty_heap [(Str ''x'', Tuple [Str ''g'', Str ''y''])]))
           [(Str ''z'', Tuple [Str ''a''])]))
        0 (Some 0)) =
     Some [(Str ''z'', Tuple [Str ''a'']), (Str ''x'', Tuple [Str ''g'', Str ''y''])] \<and>
   idempotent GeneralUnifier
     [(Str ''z'', Tuple [Str ''a'']), (Str ''x'', Tuple [Str ''g'', Str ''y''])]"
  by (simp add: unify_eval closed_def idempotent_def)

text \<open>
  Claim C5, at the input where the code departs from it. Called with the caller's dict
  \<open>{"x": ("a",)}\<close> and the list \<open>[("y", ("g", "x"))]\<close>, \<open>unify\<close> returns
  \<open>{"x": ("a",), "y": ("g", "x")}\<close>: the key \<open>"x"\<close> occurs in the value of \<open>"y"\<close>. The
  initial dict is never applied to the equations, so the dict returned does not even
  make the two sides of the equation equal: \<open>subst\<close> with it takes \<open>"y"\<close> to
  \<open>("g", "x")\<close> and \<open>("g", "x")\<close> to \<open>("g", ("a",))\<close>.
\<close>

theorem unify_initial_subst_not_applied:
  "returned_dict
     (unify GeneralUnifier
        (fst (new_dict (fst (new_list empty_heap [(Str ''y'', Tuple [Str ''g'', Str ''x''])]))
           [(Str ''x'', Tuple [Str ''a''])]))
        0 (Some 0)) =
     Some [(Str ''x'', Tuple [Str ''a'']), (Str ''y'', Tuple [Str ''g'', Str ''x''])] \<and>
   general_occurs_in (Str ''x'') (Tuple [Str ''g'', Str ''x'']) \<and>
   general_subst [(Str ''x'', Tuple [Str ''a'']), (Str ''y'', Tuple [Str ''g'', Str ''x''])]
     (Str ''y'') = Inr (Tuple [Str ''g'', Str ''x'']) \<and>
   general_subst [(Str ''x'', Tuple [Str ''a'']), (Str ''y'', Tuple [Str ''g'', Str ''x''])]
     (Tuple [Str ''g'', Str ''x'']) = Inr (Tuple [Str ''g'', Tuple [Str ''a'']])"
  by (simp add: unify_eval)

subsection \<open>When \<open>unify\<close> raises\<close>

text \<open>
  With the combinator adapter a pass that is to bind a variable raises \<open>TypeError\<close> at
  \<open>{left: right}\<close>, before anything is bound: \<open>unify([(Var("x"), S)], subst)\<close> with the
  caller's empty dict \<open>subst\<close> raises it and leaves the dict empty and the list popped.
  \<open>subst\<close> of the adapter raises it for every variable.
\<close>

lemma adapter_cannot_bind:
  "unify CombUnifier (fst (new_dict (fst (new_list empty_heap [(Var ''x'', S)])) [])) 0 (Some 0) =
     Some (Raised (PyError TypeError)
       (store (fst (new_dict (fst (new_list empty_heap [(Var ''x'', S)])) [])) 0 0
          \<lparr>equations = [], subst = []\<rparr>)) \<and>
   comb_subst [] (Var ''x'') = Inl TypeError"
  by (simp add: unify_eval S_def)

text \<open>
  Claim C8, as amended. A pass of the loop raises the occurs-check error exactly when
  the equation it pops has a variable on the left that is not the right side and occurs
  in the right side; it raises the symbol-mismatch error exactly when the two sides of
  the popped equation differ, neither is a variable, and their function symbols differ.
  A call of \<open>unify\<close> raises an error exactly when a pass that the loop reaches raises
  it. The call then returns no dict, and the list and the dict it worked on are left as
  they are at the \<open>raise\<close>: the failing equation popped, and every change of the passes
  before in place.
\<close>

theorem unify_raises_exactly:
  "(unify_iter cls st = Raise (OccursCheck l r) st' \<longleftrightarrow>
      (\<exists>eqs s. st = \<lparr>equations = eqs @ [(l, r)], subst = s\<rparr> \<and>
         st' = \<lparr>equations = eqs, subst = s\<rparr> \<and> l \<noteq> r \<and> is_var cls l \<and> occurs_in cls l r)) \<and>
   (unify_iter cls st = Raise (SymbolMismatch f g) st' \<longleftrightarrow>
      (\<exists>eqs l r s. st = \<lparr>equations = eqs @ [(l, r)], subst = s\<rparr> \<and>
         st' = \<lparr>equations = eqs, subst = s\<rparr> \<and> l \<noteq> r \<and> \<not> is_var cls l \<and> \<not> is_var cls r \<and>
         fun_sym cls l = Inr f \<and> fun_sym cls r = Inr g \<and> f \<noteq> g)) \<and>
   (unify cls h e a = Some (Raised err h') \<longleftrightarrow>
      (\<exists>st st'. reaches cls
           \<lparr>equations = lists (fst (subst_object h a)) e,
            subst = dicts (fst (subst_object h a)) (snd (subst_object h a))\<rparr> st \<and>
         unify_iter cls st = Raise err st' \<and>
         h' = store (fst (subst_object h a)) e (snd (subst_object h a)) st')) \<and>
   returned_dict (Some (Raised err h')) = None"
proof (intro conjI)
  show "unify cls h e a = Some (Raised err h') \<longleftrightarrow>
      (\<exists>st st'. reaches cls
           \<lparr>equations = lists (fst (subst_object h a)) e,
            subst = dicts (fst (subst_object h a)) (snd (subst_object h a))\<rparr> st \<and>
         unify_iter cls st = Raise err st' \<and>
         h' = store (fst (subst_object h a)) e (snd (subst_object h a)) st')"
    unfolding unify_Raised_iff[OF prod.collapse[symmetric]] unify_loop_Abort_iff
    by blast
qed (simp_all add: raise_occurs_iff raise_mismatch_iff)

text \<open>
  Claim C8 as stated fails in its last part: called with the caller's empty dict and the
  list \<open>[(("f",), ("g",)), ("x", ("a",))]\<close>, \<open>unify\<close> raises the symbol-mismatch error
  and leaves the binding \<open>"x": ("a",)\<close> in the caller's dict and the caller's list
  empty.
\<close>

theorem unify_error_leaves_bindings:
  "unify GeneralUnifier
     (fst (new_dict (fst (new_list empty_heap
        [(Tuple [Str ''f''], Tuple [Str ''g'']), (Str ''x'', Tuple [Str ''a''])])) []))
     0 (Some 0) =
   Some (Raised (SymbolMismatch (Str ''f'') (Str ''g''))
     (store
        (fst (new_dict (fst (new_list empty_heap
           [(Tuple [Str ''f''], Tuple [Str ''g'']), (Str ''x'', Tuple [Str ''a''])])) []))
        0 0 \<lparr>equations = [], subst = [(Str ''x'', Tuple [Str ''a''])]\<rparr>))"
  by (simp add: unify_eval)

text \<open>The theorem of claim C8 at that call.\<close>

theorem unify_raises_exactly_witness:
  "\<exists>st st'.
     reaches GeneralUnifier
       \<lparr>equations = [(Tuple [Str ''f''], Tuple [Str ''g'']), (Str ''x'', Tuple [Str ''a''])],
        subst = []\<rparr> st \<and>
     unify_iter GeneralUnifier st = Raise (SymbolMismatch (Str ''f'') (Str ''g'')) st' \<and>
     st' = \<lparr>equations = [], subst = [(Str ''x'', Tuple [Str ''a''])]\<rparr>"
proof -
  let ?h = "fst (new_dict (fst (new_list empty_heap
        [(Tuple [Str ''f''], Tuple [Str ''g'']), (Str ''x'', Tuple [Str ''a''])])) [])"
  let ?st' = "\<lparr>equations = [], subst = [(Str ''x'', Tuple [Str ''a''])]\<rparr>"
  have run: "unify GeneralUnifier ?h 0 (Some 0) =
      Some (Raised (SymbolMismatch (Str ''f'') (Str ''g'')) (store ?h 0 0 ?st'))"
    by (simp add: unify_eval)
  have so: "subst_object ?h (Some 0) = (?h, 0)"
    by (simp add: subst_object_def)
  note third = unify_raises_exactly[where cls = GeneralUnifier and h = ?h and e = 0
      and a = "Some 0" and err = "SymbolMismatch (Str ''f'') (Str ''g'')"
      and h' = "store ?h 0 0 ?st'", THEN conjunct2, THEN conjunct2, THEN conjunct1]
  from third[THEN iffD1, OF run]
  obtain st st' where
    r: "reaches GeneralUnifier \<lparr>equations = lists ?h 0, subst = dicts ?h 0\<rparr> st" and
    i: "unify_iter GeneralUnifier st = Raise (SymbolMismatch (Str ''f'') (Str ''g'')) st'" and
    h: "store ?h 0 0 ?st' = store ?h 0 0 st'"
    unfolding so fst_conv snd_conv by blast
  from h have "st' = ?st'"
    by (rule store_inject[symmetric])
  with r i show ?thesis
    by (auto simp: new_list_def new_dict_def empty_heap_def)
qed

subsection \<open>\<open>unify\<close> works on the objects of its caller\<close>

lemma subst_item_keys:
  "update_each (subst_item cls ns) s = Inr s' \<Longrightarrow> map fst s' = map fst s"
proof -
  assume "update_each (subst_item cls ns) s = Inr s'"
  from update_each_Inr[OF this] show ?thesis
    by (induction rule: list_all2_induct) (auto simp: subst_item_def split: sum.splits)
qed

lemma unify_iter_bind:
  assumes "unify_iter cls \<lparr>equations = eqs @ [(left, right)], subst = s\<rparr> = Next st'"
    and "left \<noteq> right" and "is_var cls left"
  shows "map_of (subst st') left = Some right \<and>
     map fst (subst st') = (if left \<in> set (map fst s) then map fst s else map fst s @ [left])"
proof -
  from assms obtain eqs' s' where
    s': "update_each (subst_item cls [(left, right)]) s = Inr s'" and
    st': "st' = \<lparr>equations = eqs', subst = AList.update left right s'\<rparr>"
    by (auto simp: unify_iter_pop split: if_splits sum.splits prod.splits)
  show ?thesis
    by (simp add: st' update_conv' update_keys subst_item_keys[OF s'])
qed

lemma unify_single_binding:
  assumes l: "lists h e = [(x, t)]" and v: "is_var cls x" and ne: "x \<noteq> t"
    and oc: "\<not> occurs_in cls x t" and hs: "hashable cls x"
    and s': "update_each (subst_item cls [(x, t)]) (dicts h d0) = Inr s'"
  shows "unify cls h e (Some d0) =
     Some (Returned d0 (store h e d0 \<lparr>equations = [], subst = AList.update x t s'\<rparr>))"
proof -
  have 1: "unify_iter cls \<lparr>equations = [] @ [(x, t)], subst = dicts h d0\<rparr> =
      Next \<lparr>equations = [], subst = AList.update x t s'\<rparr>"
    unfolding unify_iter_pop using v ne oc hs s' by simp
  have "unify_loop cls \<lparr>equations = [(x, t)], subst = dicts h d0\<rparr> =
      Some (Return \<lparr>equations = [], subst = AList.update x t s'\<rparr>)"
    using unify_loop_Next[OF 1] unify_loop_Exit[OF unify_iter_empty] by simp
  then show ?thesis
    by (simp add: unify_def subst_object_def l)
qed

text \<open>
  Claim C10. When \<open>unify\<close> returns, the caller's list \<open>equations\<close> is empty; the dict
  returned is the caller's own dict when one was passed (a new one otherwise), holding
  what the loop ended with; no other list or dict has changed. A pass that binds a
  variable \<open>left\<close> assigns \<open>right\<close> to the key \<open>left\<close>: a key already in the dict keeps
  its place and gets the new value. So for a list with the one equation \<open>(x, t)\<close>, where
  \<open>x\<close> is a variable that has a hash, and any dict of the caller, the dict returned is
  the caller's, with \<open>t\<close> bound to \<open>x\<close> whatever \<open>x\<close> was bound to before.
\<close>

theorem unify_mutates_arguments:
  "(unify cls h e a = Some (Returned d h') \<longrightarrow>
      lists h' e = [] \<and>
      (\<forall>d0. a = Some d0 \<longrightarrow> d = d0) \<and>
      (a = None \<longrightarrow> d = next_dict h) \<and>
      (\<forall>l. l \<noteq> e \<longrightarrow> lists h' l = lists h l) \<and>
      (\<forall>d'. d' \<noteq> d \<longrightarrow> dicts h' d' = dicts h d') \<and>
      (\<exists>st'. reaches cls
           \<lparr>equations = lists h e, subst = (case a of None \<Rightarrow> [] | Some d0 \<Rightarrow> dicts h d0)\<rparr> st' \<and>
         equations st' = [] \<and> dicts h' d = subst st')) \<and>
   (unify_iter cls \<lparr>equations = eqs @ [(left, right)], subst = s\<rparr> = Next st \<and>
      left \<noteq> right \<and> is_var cls left \<longrightarrow>
      map_of (subst st) left = Some right \<and>
      map fst (subst st) = (if left \<in> set (map fst s) then map fst s else map fst s @ [left])) \<and>
   (lists h e = [(x, t)] \<and> is_var cls x \<and> x \<noteq> t \<and> \<not> occurs_in cls x t \<and>
      hashable cls x \<and>
      update_each (subst_item cls [(x, t)]) (dicts h d1) = Inr s' \<longrightarrow>
      unify cls h e (Some d1) =
        Some (Returned d1 (store h e d1 \<lparr>equations = [], subst = AList.update x t s'\<rparr>)) \<and>
      map_of (AList.update x t s') x = Some t \<and>
      map fst s' = map fst (dicts h d1))"
proof (intro conjI impI)
  assume ret: "unify cls h e a = Some (Returned d h')"
  obtain h1 d1 where so: "subst_object h a = (h1, d1)"
    by (cases "subst_object h a")
  from ret[unfolded unify_Returned_iff[OF so] unify_loop_Return_iff] obtain st' where
    r: "reaches cls \<lparr>equations = lists h1 e, subst = dicts h1 d1\<rparr> st'" and
    em: "equations st' = []" and d: "d = d1" and h': "h' = store h1 e d1 st'"
    by blast
  show "lists h' e = []"
    by (simp add: h' em)
  show "\<forall>d0. a = Some d0 \<longrightarrow> d = d0"
    using so d by (auto simp: subst_object_def)
  show "a = None \<Longrightarrow> d = next_dict h"
    using so d by (auto simp: subst_object_def new_dict_def)
  show "\<forall>l. l \<noteq> e \<longrightarrow> lists h' l = lists h l"
    using so by (cases a) (auto simp: h' store_def subst_object_def new_dict_def)
  show "\<forall>d'. d' \<noteq> d \<longrightarrow> dicts h' d' = dicts h d'"
    using so d by (cases a) (auto simp: h' store_def subst_object_def new_dict_def)
  have "\<lparr>equations = lists h1 e, subst = dicts h1 d1\<rparr> =
      \<lparr>equations = lists h e, subst = (case a of None \<Rightarrow> [] | Some d0 \<Rightarrow> dicts h d0)\<rparr>"
    using so by (cases a) (auto simp: subst_object_def new_dict_def)
  with r em show "\<exists>st'. reaches cls
       \<lparr>equations = lists h e, subst = (case a of None \<Rightarrow> [] | Some d0 \<Rightarrow> dicts h d0)\<rparr> st' \<and>
       equations st' = [] \<and> dicts h' d = subst st'"
    by (auto simp: h' d)
next
  assume "unify_iter cls \<lparr>equations = eqs @ [(left, right)], subst = s\<rparr> = Next st \<and>
      left \<noteq> right \<and> is_var cls left"
  then have "unify_iter cls \<lparr>equations = eqs @ [(left, right)], subst = s\<rparr> = Next st"
    and "left \<noteq> right" and "is_var cls left"
    by blast+
  then have b: "map_of (subst st) left = Some right \<and>
     map fst (subst st) = (if left \<in> set (map fst s) then map fst s else map fst s @ [left])"
    by (rule unify_iter_bind)
  from b show "map_of (subst st) left = Some right" ..
  from b show "map fst (subst st) =
      (if left \<in> set (map fst s) then map fst s else map fst s @ [left])" ..
next
  assume a: "lists h e = [(x, t)] \<and> is_var cls x \<and> x \<noteq> t \<and> \<not> occurs_in cls x t \<and>
      hashable cls x \<and>
      update_each (subst_item cls [(x, t)]) (dicts h d1) = Inr s'"
  then have "lists h e = [(x, t)]" "is_var cls x" "x \<noteq> t" "\<not> occurs_in cls x t"
    "hashable cls x" "update_each (subst_item cls [(x, t)]) (dicts h d1) = Inr s'"
    by blast+
  then show "unify cls h e (Some d1) =
        Some (Returned d1 (store h e d1 \<lparr>equations = [], subst = AList.update x t s'\<rparr>))"
    by (rule unify_single_binding)
  show "map_of (AList.update x t s') x = Some t"
    by (simp add: update_conv')
  from a have "update_each (subst_item cls [(x, t)]) (dicts h d1) = Inr s'"
    by blast
  then show "map fst s' = map fst (dicts h d1)"
    by (rule subst_item_keys)
qed

text \<open>
  The theorem of claim C10 at a call with the caller's dict
  \<open>{"x": ("b",), "y": ("g", "x")}\<close> and the list \<open>[("x", ("a",))]\<close>: the dict returned
  is the caller's, now \<open>{"x": ("a",), "y": ("g", ("a",))}\<close>, and the list is empty. The one
  pass of the loop binds \<open>"x"\<close>, which was bound to \<open>("b",)\<close>, to \<open>("a",)\<close>.
\<close>

theorem unify_mutates_arguments_witness:
  "unify GeneralUnifier
     (fst (new_dict (fst (new_list empty_heap [(Str ''x'', Tuple [Str ''a''])]))
        [(Str ''x'', Tuple [Str ''b'']), (Str ''y'', Tuple [Str ''g'', Str ''x''])]))
     0 (Some 0) =
   Some (Returned 0
     \<lparr>lists = (\<lambda>a. []),
      dicts = (\<lambda>a. [])(0 := [(Str ''x'', Tuple [Str ''a'']),
                              (Str ''y'', Tuple [Str ''g'', Tuple [Str ''a'']])]),
      next_list = 1, next_dict = 1\<rparr>) \<and>
   lists \<lparr>lists = (\<lambda>a. []),
      dicts = (\<lambda>a. [])(0 := [(Str ''x'', Tuple [Str ''a'']),
                              (Str ''y'', Tuple [Str ''g'', Tuple [Str ''a'']])]),
      next_list = 1, next_dict = 1\<rparr> 0 = [] \<and>
   unify_iter GeneralUnifier
     \<lparr>equations = [] @ [(Str ''x'', Tuple [Str ''a''])],
      subst = [(Str ''x'', Tuple [Str ''b'']), (Str ''y'', Tuple [Str ''g'', Str ''x''])]\<rparr> =
   Next \<lparr>equations = [],
      subst = [(Str ''x'', Tuple [Str ''a'']),
               (Str ''y'', Tuple [Str ''g'', Tuple [Str ''a'']])]\<rparr> \<and>
   map_of [(Str ''x'', Tuple [Str ''b'']), (Str ''y'', Tuple [Str ''g'', Str ''x''])]
     (Str ''x'') = Some (Tuple [Str ''b'']) \<and>
   map_of [(Str ''x'', Tuple [Str ''a'']), (Str ''y'', Tuple [Str ''g'', Tuple [Str ''a'']])]
     (Str ''x'') = Some (Tuple [Str ''a''])"
proof -
  let ?x = "Str ''x'' :: pyval"
  let ?t = "Tuple [Str ''a''] :: pyval"
  let ?d = "[(?x, Tuple [Str ''b'']), (Str ''y'', Tuple [Str ''g'', ?x])]"
  let ?s' = "[(?x, Tuple [Str ''b'']), (Str ''y'', Tuple [Str ''g'', ?t])]"
  let ?d' = "[(?x, ?t), (Str ''y'', Tuple [Str ''g'', ?t])]"
  let ?h = "fst (new_dict (fst (new_list empty_heap [(?x, ?t)])) ?d)"
  let ?h' = "\<lparr>lists = (\<lambda>a. []), dicts = (\<lambda>a. [])(0 := ?d'), next_list = 1, next_dict = 1\<rparr>"
  let ?st = "\<lparr>equations = [], subst = ?d'\<rparr>"
  note inst = unify_mutates_arguments[where cls = GeneralUnifier and h = ?h and e = 0
      and a = "Some 0" and d = 0 and h' = ?h' and eqs = "[]" and left = ?x and right = ?t
      and s = ?d and st = ?st and x = ?x and t = ?t and ?d1.0 = 0 and s' = ?s']
  have run: "unify GeneralUnifier ?h 0 (Some 0) = Some (Returned 0 ?h')"
    by (simp add: unify_eval fun_eq_iff)
  have pass: "unify_iter GeneralUnifier \<lparr>equations = [] @ [(?x, ?t)], subst = ?d\<rparr> = Next ?st"
    by (simp add: unify_eval)
  have pre2: "?x \<noteq> ?t \<and> is_var GeneralUnifier ?x"
    by (simp add: GeneralUnifier_def)
  have pre3: "lists ?h 0 = [(?x, ?t)] \<and> is_var GeneralUnifier ?x \<and> ?x \<noteq> ?t \<and>
      \<not> occurs_in GeneralUnifier ?x ?t \<and> hashable GeneralUnifier ?x \<and>
      update_each (subst_item GeneralUnifier [(?x, ?t)]) (dicts ?h 0) = Inr ?s'"
    by (simp add: unify_eval)
  from inst[THEN conjunct1, rule_format, OF run] have 1: "lists ?h' 0 = []"
    by (rule conjunct1)
  from inst[THEN conjunct2, THEN conjunct1] pass pre2
  have 2: "map_of (subst ?st) ?x = Some ?t"
    by blast
  from inst[THEN conjunct2, THEN conjunct2] pre3
  have 3: "map_of (AList.update ?x ?t ?s') ?x = Some ?t"
    by blast
  from run 1 pass 2 3 show ?thesis
    by simp
qed

end
